theory Spec2Isabelle
  imports Main
begin

section \<open>The edit-distance engine of typosee.c\<close>

text \<open>
  The development embeds the four functions of \<^verbatim>\<open>typosee.c\<close> that make up the
  edit-distance engine: \<^verbatim>\<open>min3\<close>, \<^verbatim>\<open>levenshtein_matrix_create\<close>,
  \<^verbatim>\<open>levenshtein_matrix_calculate\<close> and \<^verbatim>\<open>levenshtein_distance\<close>.

  Conventions of the embedding.
  \<^item> A C string is a \<open>string\<close> (the characters before the terminating NUL);
    \<^verbatim>\<open>strlen\<close> is \<open>length\<close>.
  \<^item> \<^verbatim>\<open>unsigned int\<close> and \<^verbatim>\<open>size_t\<close> values are \<open>nat\<close>, the
    \<^verbatim>\<open>int\<close> parameters of \<^verbatim>\<open>min3\<close> are \<open>int\<close>. Every score in a table is at most
    the sum of the two lengths, so no conversion wraps as long as both strings are shorter
    than \<open>2^30\<close> characters; the driver reads its strings from 2048-byte buffers.
  \<^item> The matrix \<^verbatim>\<open>edit **mat\<close> is a store from index pairs to cells. A pointer
    \<^verbatim>\<open>&mat[i][j]\<close> is the index pair \<open>Some (i, j)\<close>, \<^verbatim>\<open>NULL\<close> is \<open>None\<close>.
  \<^item> \<^verbatim>\<open>malloc\<close> may fail. The calls of \<^verbatim>\<open>malloc\<close> made by one run of
    \<^verbatim>\<open>levenshtein_distance\<close> are numbered from 0 (the array of row pointers is call 0,
    row \<open>i\<close> is call \<open>i + 1\<close>, the script array is call \<open>len1 + 2\<close>), and call \<open>k\<close>
    returns a block iff \<open>malloc_ok k\<close>; a null result of \<^verbatim>\<open>malloc(0)\<close> is such a
    call too. The indeterminate contents of the freshly allocated rows are the parameter
    \<open>fresh\<close>.
  \<^item> The slots of the script array that the code never writes are \<open>None\<close>.
\<close>

subsection \<open>Data\<close>

datatype edit_type = INSERTION | DELETION | SUBSTITUTION | NONE

record edit =
  score :: nat
  type :: edit_type
  arg1 :: char
  arg2 :: char
  pos :: nat
  prev :: "(nat \<times> nat) option"

type_synonym matrix = "nat \<times> nat \<Rightarrow> edit"

text \<open>What the caller finds in \<^verbatim>\<open>*script\<close> after the call: the pointer was not
  assigned at all, it was set to \<^verbatim>\<open>NULL\<close>, or it points to a new array.\<close>

datatype script_out = Unassigned | Null | Script "edit option list"

text \<open>A run either returns a distance together with the state of \<^verbatim>\<open>*script\<close>, or it
  writes outside the script array (undefined behaviour in C).\<close>

datatype outcome = Return nat script_out | OutOfBounds

subsection \<open>min3\<close>

definition min3 :: "int \<Rightarrow> int \<Rightarrow> int \<Rightarrow> int" where
  "min3 a b c =
     (if a < b \<and> a < c then a
      else if b < a \<and> b < c then b
      else c)"

subsection \<open>levenshtein\_matrix\_calculate\<close>

text \<open>The body of the inner loop, for one cell \<^verbatim>\<open>mat[i][j]\<close>.\<close>

definition calculate_cell :: "matrix \<Rightarrow> string \<Rightarrow> string \<Rightarrow> nat \<Rightarrow> nat \<Rightarrow> matrix" where
  "calculate_cell mat str1 str2 i j =
     (let substitution_cost = (if str1 ! (i - 1) = str2 ! (j - 1) then 0 else 1 :: nat);
          del = score (mat (i - 1, j)) + 1;
          ins = score (mat (i, j - 1)) + 1;
          subst = score (mat (i - 1, j - 1)) + substitution_cost;
          best = nat (min3 (int del) (int ins) (int subst));
          c = (mat (i, j))\<lparr>score := best, arg1 := str1 ! (i - 1),
                arg2 := str2 ! (j - 1), pos := i - 1\<rparr>
      in mat((i, j) :=
           (if best = del then c\<lparr>type := DELETION, prev := Some (i - 1, j)\<rparr>
            else if best = ins then c\<lparr>type := INSERTION, prev := Some (i, j - 1)\<rparr>
            else c\<lparr>type := (if substitution_cost > 0 then SUBSTITUTION else NONE),
                    prev := Some (i - 1, j - 1)\<rparr>)))"

text \<open>The inner loop \<^verbatim>\<open>for (i = 1; i <= len1; i++)\<close>, entered with the current \<open>i\<close>.\<close>

function calculate_rows ::
  "matrix \<Rightarrow> string \<Rightarrow> nat \<Rightarrow> string \<Rightarrow> nat \<Rightarrow> nat \<Rightarrow> matrix" where
  "calculate_rows mat str1 len1 str2 j i =
     (if i \<le> len1
      then calculate_rows (calculate_cell mat str1 str2 i j) str1 len1 str2 j (i + 1)
      else mat)"
  by pat_completeness auto
termination
  by (relation "measure (\<lambda>(mat, str1, len1, str2, j, i). len1 + 1 - i)") auto

text \<open>The outer loop \<^verbatim>\<open>for (j = 1; j <= len2; j++)\<close>, entered with the current \<open>j\<close>.\<close>

function calculate_cols ::
  "matrix \<Rightarrow> string \<Rightarrow> nat \<Rightarrow> string \<Rightarrow> nat \<Rightarrow> nat \<Rightarrow> matrix" where
  "calculate_cols mat str1 len1 str2 len2 j =
     (if j \<le> len2
      then calculate_cols (calculate_rows mat str1 len1 str2 j 1) str1 len1 str2 len2 (j + 1)
      else mat)"
  by pat_completeness auto
termination
  by (relation "measure (\<lambda>(mat, str1, len1, str2, len2, j). len2 + 1 - j)") auto

declare calculate_rows.simps [simp del]
declare calculate_cols.simps [simp del]

text \<open>The function returns the score of the last cell; the filled matrix is returned
  with it, since the C function fills the caller's matrix in place.\<close>

definition levenshtein_matrix_calculate ::
  "matrix \<Rightarrow> string \<Rightarrow> nat \<Rightarrow> string \<Rightarrow> nat \<Rightarrow> nat \<times> matrix" where
  "levenshtein_matrix_calculate mat str1 len1 str2 len2 =
     (let mat' = calculate_cols mat str1 len1 str2 len2 1
      in (score (mat' (len1, len2)), mat'))"

subsection \<open>levenshtein\_matrix\_create\<close>

text \<open>The loop that allocates the rows: row \<open>i\<close> is the \<open>(i + 1)\<close>-th call of
  \<^verbatim>\<open>malloc\<close> after the one for the array of row pointers. The result says whether
  every row was obtained.\<close>

function alloc_rows :: "(nat \<Rightarrow> bool) \<Rightarrow> nat \<Rightarrow> nat \<Rightarrow> bool" where
  "alloc_rows malloc_ok len1 i =
     (if i \<le> len1
      then (if malloc_ok (i + 1) then alloc_rows malloc_ok len1 (i + 1) else False)
      else True)"
  by pat_completeness auto
termination
  by (relation "measure (\<lambda>(malloc_ok, len1, i). len1 + 1 - i)") auto

text \<open>The two loops that initialise the borders.\<close>

function init_column :: "matrix \<Rightarrow> nat \<Rightarrow> nat \<Rightarrow> matrix" where
  "init_column mat len1 i =
     (if i \<le> len1
      then init_column
             (mat((i, 0) := (mat (i, 0))\<lparr>score := i, prev := None,
                                          arg1 := CHR 0x00, arg2 := CHR 0x00\<rparr>))
             len1 (i + 1)
      else mat)"
  by pat_completeness auto
termination
  by (relation "measure (\<lambda>(mat, len1, i). len1 + 1 - i)") auto

function init_row :: "matrix \<Rightarrow> nat \<Rightarrow> nat \<Rightarrow> matrix" where
  "init_row mat len2 j =
     (if j \<le> len2
      then init_row
             (mat((0, j) := (mat (0, j))\<lparr>score := j, prev := None,
                                          arg1 := CHR 0x00, arg2 := CHR 0x00\<rparr>))
             len2 (j + 1)
      else mat)"
  by pat_completeness auto
termination
  by (relation "measure (\<lambda>(mat, len2, j). len2 + 1 - j)") auto

declare alloc_rows.simps [simp del]
declare init_column.simps [simp del]
declare init_row.simps [simp del]

definition levenshtein_matrix_create ::
  "(nat \<Rightarrow> bool) \<Rightarrow> matrix \<Rightarrow> string \<Rightarrow> nat \<Rightarrow> string \<Rightarrow> nat \<Rightarrow> matrix option" where
  "levenshtein_matrix_create malloc_ok fresh str1 len1 str2 len2 =
     (if \<not> malloc_ok 0 then None
      else if \<not> alloc_rows malloc_ok len1 0 then None
      else Some (init_row (init_column fresh len1 0) len2 0))"

subsection \<open>levenshtein\_distance\<close>

text \<open>The loop that reads back the edit script: \<open>head\<close> is the cell pointed to, \<open>i\<close> the
  next slot to fill. The counter \<open>i\<close> is an \<open>int\<close>: the C counter starts at
  \<^verbatim>\<open>distance - 1\<close> and is decremented, and a value below zero stands for the wrapped
  \<^verbatim>\<open>unsigned int\<close>, which is outside every array. A \<^verbatim>\<open>memcpy\<close> to a slot outside
  the array ends the run with \<open>OutOfBounds\<close>. The loop follows pointers, so it is a
  partial function: \<open>None\<close> is a walk that never reaches a cell without predecessor.\<close>

partial_function (option) read_back ::
  "matrix \<Rightarrow> nat \<times> nat \<Rightarrow> edit option list \<Rightarrow> int \<Rightarrow> (edit option list) option option" where
  "read_back mat head script i =
     (case prev (mat head) of
        None \<Rightarrow> Some (Some script)
      | Some p \<Rightarrow>
          (if type (mat head) \<noteq> NONE
           then (if 0 \<le> i \<and> i < int (length script)
                 then read_back mat p (script[nat i := Some (mat head)]) (i - 1)
                 else Some None)
           else read_back mat p script i))"

declare read_back.simps [code]

definition levenshtein_distance ::
  "(nat \<Rightarrow> bool) \<Rightarrow> matrix \<Rightarrow> string \<Rightarrow> string \<Rightarrow> outcome option" where
  "levenshtein_distance malloc_ok fresh str1 str2 =
     (let len1 = length str1; len2 = length str2
      in if len1 = 0 then Some (Return len2 Unassigned)
         else if len2 = 0 then Some (Return len1 Unassigned)
         else (case levenshtein_matrix_create malloc_ok fresh str1 len1 str2 len2 of
                 None \<Rightarrow> Some (Return 0 Null)
               | Some mat0 \<Rightarrow>
                   (let (distance, mat) = levenshtein_matrix_calculate mat0 str1 len1 str2 len2
                    in if malloc_ok (len1 + 2)
                       then (case read_back mat (len1, len2) (replicate distance None)
                                     (int distance - 1) of
                               None \<Rightarrow> None
                             | Some None \<Rightarrow> Some OutOfBounds
                             | Some (Some script) \<Rightarrow> Some (Return distance (Script script)))
                       else Some (Return 0 Null))))"

subsection \<open>Reading the result\<close>

text \<open>The distance a run returned, if it returned one.\<close>

fun distance_of :: "outcome option \<Rightarrow> nat option" where
  "distance_of (Some (Return d s)) = Some d"
| "distance_of (Some OutOfBounds) = None"
| "distance_of None = None"

subsection \<open>Concrete environments\<close>

text \<open>Allocators that always succeed, never succeed, and succeed for the first three
  calls only (for a first string of length one these are the row-pointer array and the two
  rows, so that the script array is the call that fails); fresh memory whose bytes are
  all zero (\<^verbatim>\<open>INSERTION\<close> is the enumerator with value 0).\<close>

definition always_ok :: "nat \<Rightarrow> bool" where
  "always_ok k = True"

definition never_ok :: "nat \<Rightarrow> bool" where
  "never_ok k = False"

definition matrix_only_ok :: "nat \<Rightarrow> bool" where
  "matrix_only_ok k = (k \<le> 2)"

definition zero_mem :: matrix where
  "zero_mem p = \<lparr>score = 0, type = INSERTION, arg1 = CHR 0x00, arg2 = CHR 0x00,
                  pos = 0, prev = None\<rparr>"

text \<open>The distance and the filled matrix that \<^verbatim>\<open>levenshtein_distance\<close> works with
  when every allocation succeeds on zeroed memory.\<close>

definition table_of :: "string \<Rightarrow> string \<Rightarrow> (nat \<times> matrix) option" where
  "table_of str1 str2 =
     (case levenshtein_matrix_create always_ok zero_mem str1 (length str1) str2 (length str2) of
        None \<Rightarrow> None
      | Some mat0 \<Rightarrow> Some (levenshtein_matrix_calculate mat0 str1 (length str1) str2 (length str2)))"

section \<open>What the filled matrix holds\<close>

text \<open>The score that \<^verbatim>\<open>levenshtein_matrix_calculate\<close> leaves in cell \<open>(i, j)\<close>: the
  recurrence of the loop body, with \<open>min3\<close> as the code has it.\<close>

fun cell_score :: "string \<Rightarrow> string \<Rightarrow> nat \<Rightarrow> nat \<Rightarrow> nat" where
  "cell_score a b 0 j = j"
| "cell_score a b (Suc i) 0 = Suc i"
| "cell_score a b (Suc i) (Suc j) =
     nat (min3 (int (cell_score a b i (Suc j) + 1))
               (int (cell_score a b (Suc i) j + 1))
               (int (cell_score a b i j + (if a ! i = b ! j then 0 else 1))))"

text \<open>The whole cell \<open>(i, j)\<close> for \<open>i, j \<ge> 1\<close>, as the loop body writes it.\<close>

definition filled_cell :: "string \<Rightarrow> string \<Rightarrow> nat \<Rightarrow> nat \<Rightarrow> edit" where
  "filled_cell a b i j =
     (let substitution_cost = (if a ! (i - 1) = b ! (j - 1) then 0 else 1 :: nat);
          del = cell_score a b (i - 1) j + 1;
          ins = cell_score a b i (j - 1) + 1;
          best = cell_score a b i j
      in if best = del
         then \<lparr>score = best, type = DELETION, arg1 = a ! (i - 1), arg2 = b ! (j - 1),
                pos = i - 1, prev = Some (i - 1, j)\<rparr>
         else if best = ins
         then \<lparr>score = best, type = INSERTION, arg1 = a ! (i - 1), arg2 = b ! (j - 1),
                pos = i - 1, prev = Some (i, j - 1)\<rparr>
         else \<lparr>score = best,
                type = (if substitution_cost > 0 then SUBSTITUTION else NONE),
                arg1 = a ! (i - 1), arg2 = b ! (j - 1),
                pos = i - 1, prev = Some (i - 1, j - 1)\<rparr>)"

text \<open>The border cells hold their index as score and have no predecessor.\<close>

definition borders :: "matrix \<Rightarrow> nat \<Rightarrow> nat \<Rightarrow> bool" where
  "borders mat len1 len2 \<longleftrightarrow>
     (\<forall>i\<le>len1. score (mat (i, 0)) = i \<and> prev (mat (i, 0)) = None) \<and>
     (\<forall>j\<le>len2. score (mat (0, j)) = j \<and> prev (mat (0, j)) = None)"

text \<open>The loop invariant: the borders are initialised, and every inner cell that comes
  before \<open>(i0, j0)\<close> in the column-by-column fill order holds \<open>filled_cell\<close>.\<close>

definition filled_upto :: "matrix \<Rightarrow> string \<Rightarrow> string \<Rightarrow> nat \<Rightarrow> nat \<Rightarrow> nat \<Rightarrow> nat \<Rightarrow> bool" where
  "filled_upto mat a b len1 len2 j0 i0 \<longleftrightarrow>
     borders mat len1 len2 \<and>
     (\<forall>i j. 1 \<le> i \<and> i \<le> len1 \<and> 1 \<le> j \<and> j \<le> len2 \<and> (j < j0 \<or> j = j0 \<and> i < i0)
        \<longrightarrow> mat (i, j) = filled_cell a b i j)"

text \<open>The matrix after creation and calculation.\<close>

definition filled_matrix :: "matrix \<Rightarrow> string \<Rightarrow> string \<Rightarrow> matrix" where
  "filled_matrix fresh a b =
     calculate_cols (init_row (init_column fresh (length a) 0) (length b) 0)
       a (length a) b (length b) 1"

text \<open>The edits met by following the predecessor links from \<open>head\<close>, in the order they
  are met, for at most \<open>n\<close> steps; cells of kind \<open>NONE\<close> are passed over and the walk ends
  at a cell without predecessor.\<close>

fun discovered :: "matrix \<Rightarrow> nat \<Rightarrow> nat \<times> nat \<Rightarrow> edit list" where
  "discovered mat 0 head = []"
| "discovered mat (Suc n) head =
     (case prev (mat head) of
        None \<Rightarrow> []
      | Some p \<Rightarrow> (if type (mat head) \<noteq> NONE then [mat head] else []) @ discovered mat n p)"

text \<open>Storing a list of edits downwards from slot \<open>n - 1\<close>.\<close>

fun put_down :: "edit option list \<Rightarrow> edit list \<Rightarrow> nat \<Rightarrow> edit option list" where
  "put_down scr [] n = scr"
| "put_down scr (e # es) n = put_down (scr[n - 1 := Some e]) es (n - 1)"

text \<open>The substitution of \<open>b ! k\<close> for \<open>a ! k\<close>, as cell \<open>(k + 1, k + 1)\<close> records it.\<close>

definition substitution_at :: "string \<Rightarrow> string \<Rightarrow> nat \<Rightarrow> edit" where
  "substitution_at a b k =
     \<lparr>score = k + 1, type = SUBSTITUTION, arg1 = a ! k, arg2 = b ! k, pos = k,
      prev = Some (k, k)\<rparr>"

section \<open>Lemmas\<close>

subsection \<open>min3 and single cells\<close>

lemma nat_min3:
  "nat (min3 (int x) (int y) (int z)) =
     (if x < y \<and> x < z then x else if y < x \<and> y < z then y else z)"
  by (simp add: min3_def)

lemma min3_commute: "min3 a b c = min3 b a c"
  by (simp add: min3_def)

lemma score_filled_cell [simp]: "score (filled_cell a b i j) = cell_score a b i j"
  by (simp add: filled_cell_def Let_def)

lemma pos_filled_cell [simp]: "pos (filled_cell a b i j) = i - 1"
  by (simp add: filled_cell_def Let_def)

lemma cell_score_0 [simp]: "cell_score a b i 0 = i"
  by (cases i) simp_all

lemma edit_all_updates:
  "c\<lparr>score := s, arg1 := x, arg2 := y, pos := p, type := t, prev := q\<rparr> =
     \<lparr>score = s, type = t, arg1 = x, arg2 = y, pos = p, prev = q\<rparr>"
  by (cases c) simp

lemma filled_cell_prev:
  assumes "1 \<le> i" "1 \<le> j"
  shows "\<exists>p q. prev (filled_cell a b i j) = Some (p, q) \<and> p \<le> i \<and> q \<le> j \<and> p + q < i + j \<and>
           i \<le> p + 1 \<and>
           cell_score a b i j =
             cell_score a b p q + (if type (filled_cell a b i j) = NONE then 0 else 1)"
proof -
  obtain i' j' where ij: "i = Suc i'" "j = Suc j'"
    using assms by (cases i; cases j) auto
  define del where "del = cell_score a b i' (Suc j') + 1"
  define ins where "ins = cell_score a b (Suc i') j' + 1"
  define subst where "subst = cell_score a b i' j' + (if a ! i' = b ! j' then 0 else 1)"
  have best: "cell_score a b (Suc i') (Suc j') = nat (min3 (int del) (int ins) (int subst))"
    by (simp only: cell_score.simps del_def ins_def subst_def)
  have cases: "cell_score a b (Suc i') (Suc j') = del \<or> cell_score a b (Suc i') (Suc j') = ins
        \<or> cell_score a b (Suc i') (Suc j') = subst"
    unfolding best by (simp add: nat_min3)
  show ?thesis
    using cases unfolding ij
    by (auto simp: filled_cell_def Let_def del_def ins_def subst_def)
qed

lemma cell_score_sym: "cell_score a b i j = cell_score b a j i"
proof (induction a b i j rule: cell_score.induct)
  case (1 a b j)
  then show ?case by simp
next
  case (2 a b i)
  then show ?case by simp
next
  case (3 a b i j)
  have "cell_score a b (Suc i) (Suc j) =
      nat (min3 (int (cell_score b a (Suc j) i + 1)) (int (cell_score b a j (Suc i) + 1))
                (int (cell_score b a j i + (if a ! i = b ! j then 0 else 1))))"
    by (simp only: cell_score.simps "3.IH")
  also have "\<dots> = nat (min3 (int (cell_score b a j (Suc i) + 1)) (int (cell_score b a (Suc j) i + 1))
                (int (cell_score b a j i + (if b ! j = a ! i then 0 else 1))))"
    by (simp only: min3_commute [of "int (cell_score b a (Suc j) i + 1)"] eq_commute [of "a ! i"])
  also have "\<dots> = cell_score b a (Suc j) (Suc i)"
    by (simp only: cell_score.simps)
  finally show ?case .
qed

subsection \<open>The loops of levenshtein\_matrix\_calculate\<close>

lemma filled_upto_score:
  assumes f: "filled_upto mat a b len1 len2 j0 i0"
    and r: "i \<le> len1" "j \<le> len2"
    and before: "i = 0 \<or> j = 0 \<or> j < j0 \<or> j = j0 \<and> i < i0"
  shows "score (mat (i, j)) = cell_score a b i j"
proof (cases "i = 0 \<or> j = 0")
  case True
  with f r show ?thesis
    by (cases i) (auto simp: filled_upto_def borders_def)
next
  case False
  with before r f have "mat (i, j) = filled_cell a b i j"
    unfolding filled_upto_def by auto
  then show ?thesis by simp
qed

lemma calculate_cell_eq:
  assumes f: "filled_upto mat a b len1 len2 j i"
    and r: "1 \<le> i" "i \<le> len1" "1 \<le> j" "j \<le> len2"
  shows "calculate_cell mat a b i j = mat((i, j) := filled_cell a b i j)"
proof -
  obtain i' j' where ij: "i = Suc i'" "j = Suc j'"
    using r by (cases i; cases j) auto
  have d: "score (mat (i - 1, j)) = cell_score a b (i - 1) j"
    using filled_upto_score [OF f, of "i - 1" j] r ij by simp
  have n: "score (mat (i, j - 1)) = cell_score a b i (j - 1)"
    using filled_upto_score [OF f, of i "j - 1"] r ij by simp
  have s: "score (mat (i - 1, j - 1)) = cell_score a b (i - 1) (j - 1)"
    using filled_upto_score [OF f, of "i - 1" "j - 1"] r ij by simp
  have best: "nat (min3 (int (cell_score a b (i - 1) j + 1))
                        (int (cell_score a b i (j - 1) + 1))
                        (int (cell_score a b (i - 1) (j - 1) +
                              (if a ! (i - 1) = b ! (j - 1) then 0 else 1)))) =
              cell_score a b i j"
    unfolding ij by (simp only: cell_score.simps diff_Suc_1)
  show ?thesis
    unfolding calculate_cell_def filled_cell_def Let_def d n s best
    by (simp add: edit_all_updates)
qed

lemma filled_upto_step:
  assumes f: "filled_upto mat a b len1 len2 j i"
    and r: "1 \<le> i" "i \<le> len1" "1 \<le> j" "j \<le> len2"
  shows "filled_upto (calculate_cell mat a b i j) a b len1 len2 j (i + 1)"
proof -
  have "filled_upto (mat((i, j) := filled_cell a b i j)) a b len1 len2 j (i + 1)"
    using f r unfolding filled_upto_def borders_def by auto
  then show ?thesis
    by (simp add: calculate_cell_eq [OF f r])
qed

lemma calculate_rows_filled:
  "filled_upto mat a b len1 len2 j i \<Longrightarrow> 1 \<le> i \<Longrightarrow> i \<le> len1 + 1 \<Longrightarrow>
   1 \<le> j \<Longrightarrow> j \<le> len2 \<Longrightarrow>
   filled_upto (calculate_rows mat a len1 b j i) a b len1 len2 j (len1 + 1)"
proof (induction mat a len1 b j i rule: calculate_rows.induct)
  case (1 mat str1 len1 str2 j i)
  show ?case
  proof (cases "i \<le> len1")
    case True
    have unfold: "calculate_rows mat str1 len1 str2 j i =
        calculate_rows (calculate_cell mat str1 str2 i j) str1 len1 str2 j (i + 1)"
      using True by (simp add: calculate_rows.simps [of mat str1 len1 str2 j i])
    have "filled_upto (calculate_cell mat str1 str2 i j) str1 str2 len1 len2 j (i + 1)"
      using filled_upto_step "1.prems" True by simp
    then have "filled_upto (calculate_rows (calculate_cell mat str1 str2 i j) str1 len1 str2 j (i + 1))
                 str1 str2 len1 len2 j (len1 + 1)"
      using "1.prems" True by (intro "1.IH" [OF True]) simp_all
    then show ?thesis
      by (simp only: unfold)
  next
    case False
    have unfold: "calculate_rows mat str1 len1 str2 j i = mat"
      using False by (simp add: calculate_rows.simps [of mat str1 len1 str2 j i])
    from False have "i = len1 + 1" using "1.prems" by simp
    then show ?thesis
      unfolding unfold using "1.prems" by simp
  qed
qed

lemma filled_upto_next_column:
  assumes f: "filled_upto mat a b len1 len2 j (len1 + 1)"
  shows "filled_upto mat a b len1 len2 (j + 1) 1"
  unfolding filled_upto_def
proof (intro conjI allI impI)
  show "borders mat len1 len2"
    using f by (simp add: filled_upto_def)
next
  fix i k
  assume c: "1 \<le> i \<and> i \<le> len1 \<and> 1 \<le> k \<and> k \<le> len2 \<and> (k < j + 1 \<or> k = j + 1 \<and> i < 1)"
  then have k: "k < j \<or> k = j \<and> i < len1 + 1" by auto
  from f have "\<forall>i k. 1 \<le> i \<and> i \<le> len1 \<and> 1 \<le> k \<and> k \<le> len2 \<and> (k < j \<or> k = j \<and> i < len1 + 1)
        \<longrightarrow> mat (i, k) = filled_cell a b i k"
    unfolding filled_upto_def by (rule conjunct2)
  then have "1 \<le> i \<and> i \<le> len1 \<and> 1 \<le> k \<and> k \<le> len2 \<and> (k < j \<or> k = j \<and> i < len1 + 1)
        \<longrightarrow> mat (i, k) = filled_cell a b i k"
    by (elim allE)
  with c k show "mat (i, k) = filled_cell a b i k"
    by (simp only: simp_thms)
qed

lemma calculate_cols_filled:
  "filled_upto mat a b len1 len2 j 1 \<Longrightarrow> 1 \<le> j \<Longrightarrow> j \<le> len2 + 1 \<Longrightarrow>
   filled_upto (calculate_cols mat a len1 b len2 j) a b len1 len2 (len2 + 1) 1"
proof (induction mat a len1 b len2 j rule: calculate_cols.induct)
  case (1 mat str1 len1 str2 len2 j)
  show ?case
  proof (cases "j \<le> len2")
    case True
    have unfold: "calculate_cols mat str1 len1 str2 len2 j =
        calculate_cols (calculate_rows mat str1 len1 str2 j 1) str1 len1 str2 len2 (j + 1)"
      using True by (simp add: calculate_cols.simps [of mat str1 len1 str2 len2 j])
    have "filled_upto (calculate_rows mat str1 len1 str2 j 1) str1 str2 len1 len2 j (len1 + 1)"
      using "1.prems" True by (intro calculate_rows_filled) simp_all
    then have "filled_upto (calculate_rows mat str1 len1 str2 j 1) str1 str2 len1 len2 (j + 1) 1"
      by (rule filled_upto_next_column)
    then have "filled_upto
        (calculate_cols (calculate_rows mat str1 len1 str2 j 1) str1 len1 str2 len2 (j + 1))
        str1 str2 len1 len2 (len2 + 1) 1"
      using True by (intro "1.IH" [OF True]) simp_all
    then show ?thesis
      by (simp only: unfold)
  next
    case False
    have unfold: "calculate_cols mat str1 len1 str2 len2 j = mat"
      using False by (simp add: calculate_cols.simps [of mat str1 len1 str2 len2 j])
    from False have "j = len2 + 1" using "1.prems" by simp
    then show ?thesis
      unfolding unfold using "1.prems" by simp
  qed
qed

lemma calculate_filled:
  assumes "borders mat0 len1 len2"
  shows "filled_upto (calculate_cols mat0 a len1 b len2 1) a b len1 len2 (len2 + 1) 1"
proof -
  have "filled_upto mat0 a b len1 len2 1 1"
    using assms unfolding filled_upto_def by auto
  then show ?thesis
    by (rule calculate_cols_filled) simp_all
qed

subsection \<open>The loops of levenshtein\_matrix\_create\<close>

lemma init_column_apply:
  "init_column mat len1 i0 (i, j) =
     (if j = 0 \<and> i0 \<le> i \<and> i \<le> len1
      then (mat (i, 0))\<lparr>score := i, prev := None, arg1 := CHR 0x00, arg2 := CHR 0x00\<rparr>
      else mat (i, j))"
proof (induction mat len1 i0 rule: init_column.induct)
  case (1 mat len1 i0)
  let ?mat' = "mat((i0, 0) := (mat (i0, 0))\<lparr>score := i0, prev := None,
                                               arg1 := CHR 0x00, arg2 := CHR 0x00\<rparr>)"
  show ?case
  proof (cases "i0 \<le> len1")
    case True
    have "init_column mat len1 i0 (i, j) = init_column ?mat' len1 (i0 + 1) (i, j)"
      using True by (simp add: init_column.simps [of mat len1 i0])
    also have "\<dots> = (if j = 0 \<and> i0 + 1 \<le> i \<and> i \<le> len1
        then (?mat' (i, 0))\<lparr>score := i, prev := None, arg1 := CHR 0x00, arg2 := CHR 0x00\<rparr>
        else ?mat' (i, j))"
      by (rule "1.IH" [OF True])
    also have "\<dots> = (if j = 0 \<and> i0 \<le> i \<and> i \<le> len1
        then (mat (i, 0))\<lparr>score := i, prev := None, arg1 := CHR 0x00, arg2 := CHR 0x00\<rparr>
        else mat (i, j))"
      using True by (cases "i = i0") auto
    finally show ?thesis .
  next
    case False
    then show ?thesis
      by (auto simp: init_column.simps [of mat len1 i0])
  qed
qed

lemma init_row_apply:
  "init_row mat len2 j0 (i, j) =
     (if i = 0 \<and> j0 \<le> j \<and> j \<le> len2
      then (mat (0, j))\<lparr>score := j, prev := None, arg1 := CHR 0x00, arg2 := CHR 0x00\<rparr>
      else mat (i, j))"
proof (induction mat len2 j0 rule: init_row.induct)
  case (1 mat len2 j0)
  let ?mat' = "mat((0, j0) := (mat (0, j0))\<lparr>score := j0, prev := None,
                                               arg1 := CHR 0x00, arg2 := CHR 0x00\<rparr>)"
  show ?case
  proof (cases "j0 \<le> len2")
    case True
    have "init_row mat len2 j0 (i, j) = init_row ?mat' len2 (j0 + 1) (i, j)"
      using True by (simp add: init_row.simps [of mat len2 j0])
    also have "\<dots> = (if i = 0 \<and> j0 + 1 \<le> j \<and> j \<le> len2
        then (?mat' (0, j))\<lparr>score := j, prev := None, arg1 := CHR 0x00, arg2 := CHR 0x00\<rparr>
        else ?mat' (i, j))"
      by (rule "1.IH" [OF True])
    also have "\<dots> = (if i = 0 \<and> j0 \<le> j \<and> j \<le> len2
        then (mat (0, j))\<lparr>score := j, prev := None, arg1 := CHR 0x00, arg2 := CHR 0x00\<rparr>
        else mat (i, j))"
      using True by (cases "j = j0") auto
    finally show ?thesis .
  next
    case False
    then show ?thesis
      by (auto simp: init_row.simps [of mat len2 j0])
  qed
qed

lemma alloc_rows_iff:
  "alloc_rows malloc_ok len1 i0 \<longleftrightarrow> (\<forall>k. i0 \<le> k \<and> k \<le> len1 \<longrightarrow> malloc_ok (k + 1))"
proof (induction malloc_ok len1 i0 rule: alloc_rows.induct)
  case (1 malloc_ok len1 i0)
  show ?case
  proof (cases "i0 \<le> len1")
    case le: True
    show ?thesis
    proof (cases "malloc_ok (i0 + 1)")
      case True
      have "alloc_rows malloc_ok len1 i0 = alloc_rows malloc_ok len1 (i0 + 1)"
        using le True by (simp add: alloc_rows.simps [of malloc_ok len1 i0])
      also have "\<dots> \<longleftrightarrow> (\<forall>k. i0 + 1 \<le> k \<and> k \<le> len1 \<longrightarrow> malloc_ok (k + 1))"
        by (rule "1.IH" [OF le True])
      also have "\<dots> \<longleftrightarrow> (\<forall>k. i0 \<le> k \<and> k \<le> len1 \<longrightarrow> malloc_ok (k + 1))"
      proof
        assume h: "\<forall>k. i0 + 1 \<le> k \<and> k \<le> len1 \<longrightarrow> malloc_ok (k + 1)"
        show "\<forall>k. i0 \<le> k \<and> k \<le> len1 \<longrightarrow> malloc_ok (k + 1)"
        proof (intro allI impI)
          fix k assume k: "i0 \<le> k \<and> k \<le> len1"
          show "malloc_ok (k + 1)"
          proof (cases "k = i0")
            case True
            with \<open>malloc_ok (i0 + 1)\<close> show ?thesis by simp
          next
            case False
            with k have "i0 + 1 \<le> k \<and> k \<le> len1" by arith
            with h show ?thesis by blast
          qed
        qed
      next
        assume h: "\<forall>k. i0 \<le> k \<and> k \<le> len1 \<longrightarrow> malloc_ok (k + 1)"
        show "\<forall>k. i0 + 1 \<le> k \<and> k \<le> len1 \<longrightarrow> malloc_ok (k + 1)"
        proof (intro allI impI)
          fix k assume "i0 + 1 \<le> k \<and> k \<le> len1"
          then have "i0 \<le> k \<and> k \<le> len1" by arith
          with h show "malloc_ok (k + 1)" by blast
        qed
      qed
      finally show ?thesis .
    next
      case False
      have "\<not> alloc_rows malloc_ok len1 i0"
        using le False by (simp add: alloc_rows.simps [of malloc_ok len1 i0])
      moreover have "\<not> (\<forall>k. i0 \<le> k \<and> k \<le> len1 \<longrightarrow> malloc_ok (k + 1))"
        using le False by blast
      ultimately show ?thesis by blast
    qed
  next
    case False
    have "alloc_rows malloc_ok len1 i0"
      using False by (simp add: alloc_rows.simps [of malloc_ok len1 i0])
    moreover have "\<forall>k. i0 \<le> k \<and> k \<le> len1 \<longrightarrow> malloc_ok (k + 1)"
      using False by auto
    ultimately show ?thesis by blast
  qed
qed

lemma create_borders:
  "borders (init_row (init_column fresh len1 0) len2 0) len1 len2"
  unfolding borders_def
proof (intro conjI allI impI)
  fix i assume "i \<le> len1"
  then show "score (init_row (init_column fresh len1 0) len2 0 (i, 0)) = i"
    by (simp add: init_row_apply init_column_apply)
  show "prev (init_row (init_column fresh len1 0) len2 0 (i, 0)) = None"
    using \<open>i \<le> len1\<close> by (simp add: init_row_apply init_column_apply)
next
  fix j assume "j \<le> len2"
  then show "score (init_row (init_column fresh len1 0) len2 0 (0, j)) = j"
    by (simp add: init_row_apply init_column_apply)
  show "prev (init_row (init_column fresh len1 0) len2 0 (0, j)) = None"
    using \<open>j \<le> len2\<close> by (simp add: init_row_apply init_column_apply)
qed

lemma all_mallocs_split:
  "(\<forall>k\<le>(len1::nat) + 1. malloc_ok k) \<longleftrightarrow>
   malloc_ok 0 \<and> (\<forall>k. 0 \<le> k \<and> k \<le> len1 \<longrightarrow> malloc_ok (k + 1))"
proof
  assume r: "malloc_ok 0 \<and> (\<forall>k. 0 \<le> k \<and> k \<le> len1 \<longrightarrow> malloc_ok (k + 1))"
  show "\<forall>k\<le>len1 + 1. malloc_ok k"
  proof (intro allI impI)
    fix k assume kle: "k \<le> len1 + 1"
    show "malloc_ok k"
    proof (cases k)
      case 0
      with r show ?thesis by simp
    next
      case (Suc n)
      with kle have "0 \<le> n \<and> n \<le> len1" by simp
      with r have "malloc_ok (n + 1)" by blast
      with Suc show ?thesis by simp
    qed
  qed
next
  assume l: "\<forall>k\<le>len1 + 1. malloc_ok k"
  show "malloc_ok 0 \<and> (\<forall>k. 0 \<le> k \<and> k \<le> len1 \<longrightarrow> malloc_ok (k + 1))"
    using l by simp
qed

lemma all_mallocs_script:
  "(\<forall>k\<le>(len1::nat) + 2. malloc_ok k) \<longleftrightarrow> (\<forall>k\<le>len1 + 1. malloc_ok k) \<and> malloc_ok (len1 + 2)"
proof
  assume r: "(\<forall>k\<le>len1 + 1. malloc_ok k) \<and> malloc_ok (len1 + 2)"
  show "\<forall>k\<le>len1 + 2. malloc_ok k"
  proof (intro allI impI)
    fix k assume "k \<le> len1 + 2"
    then have "k \<le> len1 + 1 \<or> k = len1 + 2" by arith
    with r show "malloc_ok k" by blast
  qed
next
  assume "\<forall>k\<le>len1 + 2. malloc_ok k"
  then show "(\<forall>k\<le>len1 + 1. malloc_ok k) \<and> malloc_ok (len1 + 2)" by simp
qed

lemma create_eq:
  "levenshtein_matrix_create malloc_ok fresh str1 len1 str2 len2 =
     (if \<forall>k\<le>len1 + 1. malloc_ok k
      then Some (init_row (init_column fresh len1 0) len2 0) else None)"
proof -
  have "levenshtein_matrix_create malloc_ok fresh str1 len1 str2 len2 =
      (if malloc_ok 0 \<and> alloc_rows malloc_ok len1 0
       then Some (init_row (init_column fresh len1 0) len2 0) else None)"
    by (simp add: levenshtein_matrix_create_def)
  also have "malloc_ok 0 \<and> alloc_rows malloc_ok len1 0 \<longleftrightarrow> (\<forall>k\<le>len1 + 1. malloc_ok k)"
    by (simp only: alloc_rows_iff all_mallocs_split)
  finally show ?thesis .
qed

subsection \<open>The filled matrix\<close>

lemma filled_matrix_final:
  "filled_upto (filled_matrix fresh a b) a b (length a) (length b) (length b + 1) 1"
  unfolding filled_matrix_def by (rule calculate_filled) (rule create_borders)

lemma final_cell:
  "filled_upto mat a b len1 len2 (len2 + 1) 1 \<Longrightarrow> 1 \<le> i \<Longrightarrow> i \<le> len1 \<Longrightarrow>
   1 \<le> j \<Longrightarrow> j \<le> len2 \<Longrightarrow> mat (i, j) = filled_cell a b i j"
  unfolding filled_upto_def by simp

lemma final_border:
  "filled_upto mat a b len1 len2 (len2 + 1) 1 \<Longrightarrow> i \<le> len1 \<Longrightarrow> j \<le> len2 \<Longrightarrow>
   i = 0 \<or> j = 0 \<Longrightarrow> prev (mat (i, j)) = None"
  unfolding filled_upto_def borders_def by auto

lemma final_score:
  "filled_upto mat a b len1 len2 (len2 + 1) 1 \<Longrightarrow> i \<le> len1 \<Longrightarrow> j \<le> len2 \<Longrightarrow>
   score (mat (i, j)) = cell_score a b i j"
  by (rule filled_upto_score) auto

subsection \<open>The walk back\<close>

lemma put_down_eq:
  "n \<le> length scr \<Longrightarrow> length es \<le> n \<Longrightarrow>
   put_down scr es n = take (n - length es) scr @ map Some (rev es) @ drop n scr"
proof (induction es arbitrary: scr n)
  case Nil
  then show ?case by simp
next
  case (Cons e es)
  then obtain m where n: "n = Suc m" by (cases n) auto
  let ?scr = "scr[m := Some e]"
  have "put_down scr (e # es) n = put_down ?scr es m"
    by (simp add: n)
  also have "\<dots> = take (m - length es) ?scr @ map Some (rev es) @ drop m ?scr"
    using Cons.prems n by (intro Cons.IH) simp_all
  also have "take (m - length es) ?scr = take (m - length es) scr"
    by simp
  also have "drop m ?scr = Some e # drop (Suc m) scr"
    using Cons.prems n by (simp add: upd_conv_take_nth_drop)
  finally show ?case
    by (simp add: n)
qed


lemma discovered_kinds: "e \<in> set (discovered mat n head) \<Longrightarrow> type e \<noteq> NONE"
  by (induction n arbitrary: head) (auto split: option.splits if_splits)

lemma discovered_length:
  assumes f: "filled_upto mat a b len1 len2 (len2 + 1) 1"
  shows "i \<le> len1 \<Longrightarrow> j \<le> len2 \<Longrightarrow>
    length (discovered mat n (i, j)) \<le> cell_score a b i j"
proof (induction n arbitrary: i j)
  case 0
  then show ?case by simp
next
  case (Suc n)
  show ?case
  proof (cases "i = 0 \<or> j = 0")
    case True
    then have "prev (mat (i, j)) = None"
      using final_border [OF f, of i j] Suc.prems by simp
    then show ?thesis by simp
  next
    case False
    then have ij: "1 \<le> i" "1 \<le> j" by simp_all
    let ?c = "filled_cell a b i j"
    have c: "mat (i, j) = ?c"
      using final_cell [OF f ij(1) _ ij(2)] Suc.prems by simp
    obtain p q where pq: "prev ?c = Some (p, q)" "p \<le> i" "q \<le> j"
        and sc: "cell_score a b i j = cell_score a b p q + (if type ?c = NONE then 0 else 1)"
      using filled_cell_prev [OF ij, of a b] by blast
    have "length (discovered mat n (p, q)) \<le> cell_score a b p q"
      using pq Suc.prems by (intro Suc.IH) simp_all
    then show ?thesis
      using sc by (simp add: c pq)
  qed
qed

lemma discovered_positions:
  assumes f: "filled_upto mat a b len1 len2 (len2 + 1) 1"
  shows "i \<le> len1 \<Longrightarrow> j \<le> len2 \<Longrightarrow>
    sorted (rev (map pos (discovered mat n (i, j)))) \<and>
    (\<forall>e\<in>set (discovered mat n (i, j)). pos e < i)"
proof (induction n arbitrary: i j)
  case 0
  then show ?case by simp
next
  case (Suc n)
  show ?case
  proof (cases "i = 0 \<or> j = 0")
    case True
    then have "prev (mat (i, j)) = None"
      using final_border [OF f, of i j] Suc.prems by simp
    then show ?thesis by simp
  next
    case False
    then have ij: "1 \<le> i" "1 \<le> j" by simp_all
    let ?c = "filled_cell a b i j"
    have c: "mat (i, j) = ?c"
      using final_cell [OF f ij(1) _ ij(2)] Suc.prems by simp
    obtain p q where pq: "prev ?c = Some (p, q)" "p \<le> i" "q \<le> j"
      using filled_cell_prev [OF ij, of a b] by blast
    have ih: "sorted (rev (map pos (discovered mat n (p, q)))) \<and>
        (\<forall>e\<in>set (discovered mat n (p, q)). pos e < p)"
      using pq Suc.prems by (intro Suc.IH) simp_all
    then have below: "\<forall>e\<in>set (discovered mat n (p, q)). pos e \<le> i - 1"
      using pq(2) by fastforce
    show ?thesis
      using ih below ij pq(2)
      by (auto simp: c pq sorted_append)
  qed
qed

text \<open>The walk from cell \<open>(i, j)\<close> takes at most \<open>i + j\<close> steps: more fuel finds nothing
  more.\<close>

lemma discovered_complete:
  assumes f: "filled_upto mat a b len1 len2 (len2 + 1) 1"
  shows "i \<le> len1 \<Longrightarrow> j \<le> len2 \<Longrightarrow> i + j \<le> n \<Longrightarrow> i + j \<le> m \<Longrightarrow>
    discovered mat m (i, j) = discovered mat n (i, j)"
proof (induction n arbitrary: m i j)
  case 0
  then have "prev (mat (i, j)) = None"
    using final_border [OF f, of i j] by simp
  then show ?case by (cases m) simp_all
next
  case (Suc n)
  show ?case
  proof (cases "i = 0 \<or> j = 0")
    case True
    then have "prev (mat (i, j)) = None"
      using final_border [OF f, of i j] Suc.prems by simp
    then show ?thesis by (cases m) simp_all
  next
    case False
    then have ij: "1 \<le> i" "1 \<le> j" by simp_all
    then obtain m' where m: "m = Suc m'" using Suc.prems by (cases m) auto
    let ?c = "filled_cell a b i j"
    have c: "mat (i, j) = ?c"
      using final_cell [OF f ij(1) _ ij(2)] Suc.prems by simp
    obtain p q where pq: "prev ?c = Some (p, q)" "p \<le> i" "q \<le> j" "p + q < i + j"
      using filled_cell_prev [OF ij, of a b] by blast
    have "discovered mat m' (p, q) = discovered mat n (p, q)"
      using pq Suc.prems m by (intro Suc.IH) simp_all
    then show ?thesis
      by (simp add: m c pq)
  qed
qed

lemma read_back_discovered:
  assumes f: "filled_upto mat a b len1 len2 (len2 + 1) 1"
  shows "i \<le> len1 \<Longrightarrow> j \<le> len2 \<Longrightarrow> i + j \<le> n \<Longrightarrow> cell_score a b i j \<le> length scr \<Longrightarrow>
    read_back mat (i, j) scr (int (cell_score a b i j) - 1) =
      Some (Some (put_down scr (discovered mat n (i, j)) (cell_score a b i j)))"
proof (induction n arbitrary: i j scr)
  case 0
  then have "prev (mat (i, j)) = None"
    using final_border [OF f, of i j] by simp
  then show ?case
    by (subst read_back.simps) simp
next
  case (Suc n)
  show ?case
  proof (cases "i = 0 \<or> j = 0")
    case True
    then have "prev (mat (i, j)) = None"
      using final_border [OF f, of i j] Suc.prems by simp
    then show ?thesis
      by (subst read_back.simps) simp
  next
    case False
    then have ij: "1 \<le> i" "1 \<le> j" by simp_all
    let ?c = "filled_cell a b i j"
    have c: "mat (i, j) = ?c"
      using final_cell [OF f ij(1) _ ij(2)] Suc.prems by simp
    obtain p q where pq: "prev ?c = Some (p, q)" "p \<le> i" "q \<le> j" "p + q < i + j"
        and sc: "cell_score a b i j = cell_score a b p q + (if type ?c = NONE then 0 else 1)"
      using filled_cell_prev [OF ij, of a b] by blast
    have r: "p \<le> len1" "q \<le> len2" "p + q \<le> n"
      using pq Suc.prems by simp_all
    show ?thesis
    proof (cases "type ?c = NONE")
      case True
      with sc have eq: "cell_score a b i j = cell_score a b p q" by simp
      have "read_back mat (i, j) scr (int (cell_score a b i j) - 1) =
            read_back mat (p, q) scr (int (cell_score a b p q) - 1)"
        by (subst read_back.simps) (simp add: c pq True eq)
      also have "\<dots> = Some (Some (put_down scr (discovered mat n (p, q)) (cell_score a b p q)))"
        using r Suc.prems eq by (intro Suc.IH) simp_all
      finally show ?thesis
        by (simp add: c pq True eq)
    next
      case False
      with sc have eq: "cell_score a b i j = cell_score a b p q + 1" by simp
      let ?scr = "scr[cell_score a b p q := Some ?c]"
      have "read_back mat (i, j) scr (int (cell_score a b i j) - 1) =
            read_back mat (p, q) ?scr (int (cell_score a b p q) - 1)"
        using Suc.prems(4) by (subst read_back.simps) (simp add: c pq False eq)
      also have "\<dots> = Some (Some (put_down ?scr (discovered mat n (p, q)) (cell_score a b p q)))"
        using r Suc.prems eq by (intro Suc.IH) simp_all
      finally show ?thesis
        by (simp add: c pq False eq)
    qed
  qed
qed

subsection \<open>The result of levenshtein\_distance\<close>

text \<open>With non-empty strings and successful allocations the run terminates, writes inside
  the script array only, and returns the score of the last cell; the script array holds the
  discovered edits in reverse at its end and is unwritten before them.\<close>

lemma distance_nonempty:
  assumes ne: "a \<noteq> []" "b \<noteq> []"
    and ok: "\<forall>k\<le>length a + 1. malloc_ok k" "malloc_ok (length a + 2)"
  shows "levenshtein_distance malloc_ok fresh a b =
     Some (Return (cell_score a b (length a) (length b))
       (Script (replicate (cell_score a b (length a) (length b) -
                           length (discovered (filled_matrix fresh a b) (length a + length b)
                                     (length a, length b))) None @
                map Some (rev (discovered (filled_matrix fresh a b) (length a + length b)
                                     (length a, length b))))))"
proof -
  let ?mat = "filled_matrix fresh a b"
  let ?d = "cell_score a b (length a) (length b)"
  let ?es = "discovered ?mat (length a + length b) (length a, length b)"
  note f = filled_matrix_final [of fresh a b]
  have create: "levenshtein_matrix_create malloc_ok fresh a (length a) b (length b) =
      Some (init_row (init_column fresh (length a) 0) (length b) 0)"
    using ok(1) by (simp add: create_eq)
  have d: "score (?mat (length a, length b)) = ?d"
    using final_score [OF f, of "length a" "length b"] by simp
  have calc: "levenshtein_matrix_calculate (init_row (init_column fresh (length a) 0) (length b) 0)
      a (length a) b (length b) = (?d, ?mat)"
    using d by (simp add: levenshtein_matrix_calculate_def filled_matrix_def Let_def)
  have len: "length ?es \<le> ?d"
    using discovered_length [OF f, of "length a" "length b"] by simp
  have "read_back ?mat (length a, length b) (replicate ?d None) (int ?d - 1) =
      Some (Some (put_down (replicate ?d None) ?es ?d))"
    using read_back_discovered [OF f, of "length a" "length b" "length a + length b" "replicate ?d None"]
    by simp
  also have "put_down (replicate ?d None) ?es ?d = replicate (?d - length ?es) None @ map Some (rev ?es)"
    using len by (simp add: put_down_eq)
  finally have rb: "read_back ?mat (length a, length b) (replicate ?d None) (int ?d - 1) =
      Some (Some (replicate (?d - length ?es) None @ map Some (rev ?es)))" .
  show ?thesis
    using ne ok(2) by (simp add: levenshtein_distance_def Let_def create calc rb)
qed

lemma distance_failure:
  assumes ne: "a \<noteq> []" "b \<noteq> []"
    and fail: "\<not> (\<forall>k\<le>length a + 1. malloc_ok k) \<or> \<not> malloc_ok (length a + 2)"
  shows "levenshtein_distance malloc_ok fresh a b = Some (Return 0 Null)"
proof (cases "\<forall>k\<le>length a + 1. malloc_ok k")
  case True
  then have create: "levenshtein_matrix_create malloc_ok fresh a (length a) b (length b) =
      Some (init_row (init_column fresh (length a) 0) (length b) 0)"
    by (simp add: create_eq)
  from True fail have "\<not> malloc_ok (length a + 2)" by blast
  then show ?thesis
    using ne by (simp add: levenshtein_distance_def Let_def create split: prod.splits)
next
  case False
  then have "levenshtein_matrix_create malloc_ok fresh a (length a) b (length b) = None"
    by (simp add: create_eq)
  then show ?thesis
    using ne by (simp add: levenshtein_distance_def Let_def)
qed

lemma distance_value:
  assumes "\<forall>k\<le>length a + 2. malloc_ok k"
  shows "\<exists>s. levenshtein_distance malloc_ok fresh a b =
           Some (Return (cell_score a b (length a) (length b)) s)"
proof (cases "a = [] \<or> b = []")
  case True
  then show ?thesis
    by (auto simp: levenshtein_distance_def Let_def)
next
  case False
  moreover have "(\<forall>k\<le>length a + 1. malloc_ok k) \<and> malloc_ok (length a + 2)"
    using assms all_mallocs_script [of "length a" malloc_ok] by blast
  ultimately show ?thesis
    using distance_nonempty [of a b malloc_ok fresh] by blast
qed

text \<open>What the walk back stores: when the matrix and the script array are allocated, the
  script array consists of the discovered edits in reverse order at its end, and of
  unwritten slots before them; no discovered edit has kind \<open>NONE\<close>, and the positions of
  the stored edits do not decrease from left to right.\<close>

lemma written_entries_reverse_walk:
  assumes "str1 \<noteq> []" and "str2 \<noteq> []"
    and "levenshtein_matrix_create malloc_ok fresh str1 (length str1) str2 (length str2) = Some mat0"
    and "levenshtein_matrix_calculate mat0 str1 (length str1) str2 (length str2) = (distance, mat)"
    and "malloc_ok (length str1 + 2)"
  shows "let found = discovered mat (length str1 + length str2) (length str1, length str2)
      in levenshtein_distance malloc_ok fresh str1 str2 =
           Some (Return distance
                  (Script (replicate (distance - length found) None @ map Some (rev found)))) \<and>
         (\<forall>e\<in>set found. type e \<noteq> NONE) \<and>
         sorted (map pos (rev found))"
proof -
  let ?mat = "filled_matrix fresh str1 str2"
  let ?d = "cell_score str1 str2 (length str1) (length str2)"
  note f = filled_matrix_final [of fresh str1 str2]
  have ok: "\<forall>k\<le>length str1 + 1. malloc_ok k"
    and mat0: "mat0 = init_row (init_column fresh (length str1) 0) (length str2) 0"
    using assms(3) by (simp_all add: create_eq split: if_splits)
  have "score (?mat (length str1, length str2)) = ?d"
    using final_score [OF f, of "length str1" "length str2"] by simp
  then have "levenshtein_matrix_calculate mat0 str1 (length str1) str2 (length str2) = (?d, ?mat)"
    by (simp add: mat0 levenshtein_matrix_calculate_def filled_matrix_def Let_def)
  with assms(4) have eq: "distance = ?d" "mat = ?mat"
    by simp_all
  have sorted: "sorted (map pos (rev (discovered ?mat (length str1 + length str2)
      (length str1, length str2))))"
    using discovered_positions [OF f, of "length str1" "length str2" "length str1 + length str2"]
    by (simp add: rev_map)
  have kinds: "\<forall>e\<in>set (discovered ?mat (length str1 + length str2)
      (length str1, length str2)). type e \<noteq> NONE"
    using discovered_kinds by blast
  show ?thesis
    unfolding Let_def eq
    using distance_nonempty [OF assms(1,2) ok assms(5), of fresh] kinds sorted by (intro conjI)
qed

subsection \<open>Strings without a common character\<close>

lemma disjoint_score:
  "set a \<inter> set b = {} \<Longrightarrow> i \<le> length a \<Longrightarrow> j \<le> length b \<Longrightarrow>
   cell_score a b i j = max i j"
proof (induction a b i j rule: cell_score.induct)
  case (1 a b j)
  then show ?case by simp
next
  case (2 a b i)
  then show ?case by simp
next
  case (3 a b i j)
  have "a ! i \<in> set a" "b ! j \<in> set b"
    using "3.prems" by simp_all
  with "3.prems"(1) have ne: "a ! i \<noteq> b ! j" by auto
  have ih: "cell_score a b i (Suc j) = max i (Suc j)" "cell_score a b (Suc i) j = max (Suc i) j"
    "cell_score a b i j = max i j"
    using "3.IH" "3.prems" by simp_all
  have "cell_score a b (Suc i) (Suc j) =
      nat (min3 (int (max i (Suc j) + 1)) (int (max (Suc i) j + 1)) (int (max i j + 1)))"
    using ne by (simp only: cell_score.simps ih if_False)
  also have "\<dots> = max (Suc i) (Suc j)"
    unfolding nat_min3 by (simp add: max_def)
  finally show ?case .
qed

lemma disjoint_cell:
  assumes "set a \<inter> set b = {}" "k < length a" "k < length b"
  shows "filled_cell a b (Suc k) (Suc k) = substitution_at a b k"
proof -
  have "a ! k \<in> set a" "b ! k \<in> set b"
    using assms by simp_all
  with assms(1) have ne: "a ! k \<noteq> b ! k" by auto
  have "cell_score a b (Suc k) (Suc k) = Suc k" "cell_score a b k (Suc k) = Suc k"
    "cell_score a b (Suc k) k = Suc k"
    using assms disjoint_score [of a b "Suc k" "Suc k"] disjoint_score [of a b k "Suc k"]
      disjoint_score [of a b "Suc k" k]
    by (simp_all del: cell_score.simps)
  then show ?thesis
    using ne by (simp add: filled_cell_def substitution_at_def Let_def del: cell_score.simps)
qed

lemma disjoint_discovered:
  assumes d: "set a \<inter> set b = {}" and l: "length a = length b"
    and f: "filled_upto mat a b (length a) (length b) (length b + 1) 1"
  shows "k \<le> length a \<Longrightarrow> k \<le> m \<Longrightarrow>
    rev (discovered mat m (k, k)) = map (substitution_at a b) [0..<k]"
proof (induction k arbitrary: m)
  case 0
  have "prev (mat (0, 0)) = None"
    using final_border [OF f, of 0 0] by simp
  then show ?case by (cases m) simp_all
next
  case (Suc k)
  then obtain m' where m: "m = Suc m'" "k \<le> m'" by (cases m) auto
  have c: "mat (Suc k, Suc k) = substitution_at a b k"
    using final_cell [OF f, of "Suc k" "Suc k"] Suc.prems l d by (simp add: disjoint_cell)
  have "rev (discovered mat m' (k, k)) = map (substitution_at a b) [0..<k]"
    using Suc.prems m by (intro Suc.IH) simp_all
  then show ?case
    by (simp add: m c substitution_at_def)
qed

subsection \<open>Evaluation\<close>

lemmas run_defs =
  levenshtein_distance_def levenshtein_matrix_create_def levenshtein_matrix_calculate_def
  alloc_rows.simps init_column.simps init_row.simps calculate_cols.simps calculate_rows.simps
  calculate_cell_def min3_def read_back.simps Let_def always_ok_def never_ok_def zero_mem_def
  table_of_def

section \<open>The claims\<close>

text \<open>
  C1. For non-empty strings the table satisfies \<open>Table[i][0].score = i\<close>,
  \<open>Table[0][j].score = j\<close> and, for \<open>i, j \<ge> 1\<close>, \<open>Table[i][j].score = min(del, ins, subst)\<close>;
  the returned distance is the score of the last cell.

  The code does not keep the middle part. For \<^verbatim>\<open>"aba"\<close> and \<^verbatim>\<open>"bab"\<close> the cell
  \<open>(3, 3)\<close> has the candidates \<open>del = 2\<close>, \<open>ins = 2\<close>, \<open>subst = 3\<close>, and the score recorded is
  \<open>3\<close>: \<open>min3\<close> returns its third argument when the first two are equal.
\<close>

theorem table_score_not_minimum_aba_bab:
  "map_option (\<lambda>(distance, mat).
       (score (mat (3, 3)), score (mat (2, 3)) + 1, score (mat (3, 2)) + 1,
        score (mat (2, 2)) + (if ''aba'' ! 2 = ''bab'' ! 2 then 0 else 1)))
     (table_of ''aba'' ''bab'') = Some (3, 2, 2, 3)"
  by (simp add: run_defs)

text \<open>
  C2. When candidates tie at the minimum, a tying deletion is recorded as \<open>DELETION\<close>
  with predecessor \<open>[i-1][j]\<close>, otherwise a tying insertion as \<open>INSERTION\<close> with predecessor
  \<open>[i][j-1]\<close>, otherwise the substitution with predecessor \<open>[i-1][j-1]\<close>.

  In cell \<open>(3, 3)\<close> of \<^verbatim>\<open>"aba"\<close> and \<^verbatim>\<open>"bab"\<close> deletion and insertion tie at the minimum
  \<open>2\<close> and the substitution candidate is \<open>3\<close>, yet the cell is recorded as a
  \<open>SUBSTITUTION\<close> with the diagonal predecessor.
\<close>

theorem tie_break_not_deletion_aba_bab:
  "map_option (\<lambda>(distance, mat).
       (score (mat (2, 3)) + 1, score (mat (3, 2)) + 1, score (mat (2, 2)) + 1,
        type (mat (3, 3)), prev (mat (3, 3))))
     (table_of ''aba'' ''bab'') = Some (2, 2, 3, SUBSTITUTION, Some (2, 2))"
  by (simp add: run_defs)

text \<open>
  C3. For all strings the returned edit script has exactly as many entries as the returned
  distance.

  For \<^verbatim>\<open>"ab"\<close> and \<^verbatim>\<open>"b"\<close> the distance is \<open>1\<close> and the walk back ends at the border cell
  \<open>(1, 0)\<close> without having stored an edit: the only slot of the script array is never
  written. For \<^verbatim>\<open>""\<close> and \<^verbatim>\<open>"a"\<close> the distance is \<open>1\<close> and \<^verbatim>\<open>*script\<close> is not assigned.
\<close>

theorem script_shorter_than_distance:
  "levenshtein_distance always_ok zero_mem ''ab'' ''b'' = Some (Return 1 (Script [None])) \<and>
   levenshtein_distance always_ok zero_mem [] ''a'' = Some (Return 1 Unassigned)"
  by (simp add: run_defs)


text \<open>
  C5. \<open>distance("", B) = len(B)\<close> with a script of \<open>len(B)\<close> insertions, and
  \<open>distance(A, "") = len(A)\<close> with a script of \<open>len(A)\<close> deletions.

  The distances are as claimed, but the function returns before it builds anything:
  \<^verbatim>\<open>*script\<close> is left unassigned, so there is no script of insertions or deletions.
\<close>

theorem empty_string_leaves_script_unassigned:
  "levenshtein_distance malloc_ok fresh [] b = Some (Return (length b) Unassigned) \<and>
   levenshtein_distance malloc_ok fresh a [] = Some (Return (length a) Unassigned)"
  by (cases a) (simp_all add: levenshtein_distance_def Let_def)

text \<open>
  C6. When an allocation fails, the function signals a failure that cannot be taken for a
  genuine result; it never returns a zero distance.

  As amended: when an allocation fails on non-empty strings, the function returns the
  distance \<open>0\<close> and sets \<^verbatim>\<open>*script\<close> to \<^verbatim>\<open>NULL\<close>; the null script pointer is the only sign
  of the failure.
\<close>

theorem allocation_failure_result:
  assumes "a \<noteq> []" and "b \<noteq> []" and "\<exists>k\<le>length a + 2. \<not> malloc_ok k"
  shows "levenshtein_distance malloc_ok fresh a b = Some (Return 0 Null)"
proof -
  have "\<not> (\<forall>k\<le>length a + 1. malloc_ok k) \<or> \<not> malloc_ok (length a + 2)"
    using assms(3) all_mallocs_script [of "length a" malloc_ok] by blast
  then show ?thesis
    using assms(1,2) by (rule distance_failure [rotated 2])
qed

theorem allocation_failure_result_witness:
  "levenshtein_distance matrix_only_ok zero_mem ''a'' ''b'' = Some (Return 0 Null)"
proof -
  have "\<not> matrix_only_ok 3"
    by (simp add: matrix_only_ok_def)
  then have "\<exists>k\<le>length ''a'' + 2. \<not> matrix_only_ok k"
    by (intro exI [of _ 3]) simp
  then show ?thesis
    using allocation_failure_result [of "''a''" "''b''" matrix_only_ok zero_mem] by simp
qed

text \<open>The claim as stated fails: a run without memory returns the distance \<open>0\<close>, the
  distance of two equal strings.\<close>

theorem allocation_failure_counterexample:
  "levenshtein_distance never_ok zero_mem ''ab'' ''cd'' = Some (Return 0 Null) \<and>
   distance_of (levenshtein_distance never_ok zero_mem ''ab'' ''cd'') =
   distance_of (levenshtein_distance always_ok zero_mem ''ab'' ''ab'')"
  by (simp add: run_defs)

text \<open>
  C7. For all strings \<open>distance(A, B) = distance(B, A)\<close>.

  Both runs return a distance, and the same one, whenever their allocations succeed.
\<close>

theorem distance_symmetric:
  assumes "\<forall>k\<le>length a + 2. ok1 k" and "\<forall>k\<le>length b + 2. ok2 k"
  shows "\<exists>d. distance_of (levenshtein_distance ok1 fresh1 a b) = Some d \<and>
             distance_of (levenshtein_distance ok2 fresh2 b a) = Some d"
proof -
  obtain s1 where "levenshtein_distance ok1 fresh1 a b =
      Some (Return (cell_score a b (length a) (length b)) s1)"
    using distance_value [OF assms(1)] by blast
  moreover obtain s2 where "levenshtein_distance ok2 fresh2 b a =
      Some (Return (cell_score b a (length b) (length a)) s2)"
    using distance_value [OF assms(2)] by blast
  ultimately show ?thesis
    by (simp add: cell_score_sym [of a b])
qed

theorem distance_symmetric_witness:
  "distance_of (levenshtein_distance always_ok zero_mem ''ab'' ''b'') = Some 1 \<and>
   distance_of (levenshtein_distance always_ok zero_mem ''b'' ''ab'') = Some 1"
  using distance_symmetric [of "''ab''" always_ok "''b''" always_ok zero_mem zero_mem]
  by (simp add: run_defs)

text \<open>
  C8. For all strings \<open>distance(A, C) \<le> distance(A, B) + distance(B, C)\<close>.

  The code returns \<open>3\<close> for \<^verbatim>\<open>"aba"\<close> and \<^verbatim>\<open>"bab"\<close>, but \<open>1\<close> for \<^verbatim>\<open>"aba"\<close> and
  \<^verbatim>\<open>"ab"\<close> and \<open>1\<close> for \<^verbatim>\<open>"ab"\<close> and \<^verbatim>\<open>"bab"\<close>.
\<close>

theorem triangle_inequality_fails_aba_ab_bab:
  "distance_of (levenshtein_distance always_ok zero_mem ''aba'' ''bab'') = Some 3 \<and>
   distance_of (levenshtein_distance always_ok zero_mem ''aba'' ''ab'') = Some 1 \<and>
   distance_of (levenshtein_distance always_ok zero_mem ''ab'' ''bab'') = Some 1"
  by (simp add: run_defs)

text \<open>
  C9. For equal-length strings without a common character the script consists of
  substitutions only and the distance is the common length.

  The script is the list of the substitutions of \<open>b ! k\<close> for \<open>a ! k\<close> at position \<open>k\<close>, for
  \<open>k\<close> from \<open>0\<close> to the length; for two empty strings the distance is \<open>0\<close> and no script is
  assigned.
\<close>

theorem disjoint_strings_all_substitutions:
  assumes "length a = length b" and "set a \<inter> set b = {}"
    and "\<forall>k\<le>length a + 2. malloc_ok k"
  shows "levenshtein_distance malloc_ok fresh a b =
     Some (Return (length a)
       (if a = [] then Unassigned
        else Script (map (\<lambda>k. Some (substitution_at a b k)) [0..<length a])))"
proof (cases "a = []")
  case True
  with assms(1) show ?thesis
    by (simp add: levenshtein_distance_def)
next
  case False
  with assms(1) have ne: "a \<noteq> []" "b \<noteq> []" by auto
  let ?n = "length a"
  let ?mat = "filled_matrix fresh a b"
  have f: "filled_upto ?mat a b (length a) (length b) (length b + 1) 1"
    by (rule filled_matrix_final)
  have ok: "\<forall>k\<le>length a + 1. malloc_ok k" "malloc_ok (length a + 2)"
    using assms(3) all_mallocs_script [of "length a" malloc_ok] by blast+
  have d: "cell_score a b ?n (length b) = ?n"
    using assms(1,2) by (simp add: disjoint_score)
  have es: "rev (discovered ?mat (?n + length b) (?n, length b)) = map (substitution_at a b) [0..<?n]"
    using disjoint_discovered [OF assms(2,1) f, of ?n "?n + length b"] assms(1) by simp
  then have "length (rev (discovered ?mat (?n + length b) (?n, length b))) = ?n"
    by simp
  then have len: "length (discovered ?mat (?n + length b) (?n, length b)) = ?n"
    by simp
  show ?thesis
    using distance_nonempty [OF ne ok, of fresh] ne
    by (simp add: d es len comp_def)
qed

theorem disjoint_strings_all_substitutions_witness:
  "levenshtein_distance always_ok zero_mem ''ab'' ''cd'' =
     Some (Return 2 (Script
       [Some \<lparr>score = 1, type = SUBSTITUTION, arg1 = CHR ''a'', arg2 = CHR ''c'', pos = 0,
              prev = Some (0, 0)\<rparr>,
        Some \<lparr>score = 2, type = SUBSTITUTION, arg1 = CHR ''b'', arg2 = CHR ''d'', pos = 1,
              prev = Some (1, 1)\<rparr>]))"
  using disjoint_strings_all_substitutions [of "''ab''" "''cd''" always_ok zero_mem]
  by (simp add: always_ok_def substitution_at_def upt_rec)

text \<open>
  C10. Every triple \<open>(del, ins, subst)\<close> that occurs while a table is filled satisfies
  \<open>del = ins \<longrightarrow> subst \<le> del\<close>, so that the score recorded in every cell is the true minimum
  of the three candidates although \<open>min3\<close> is not a minimum for all arguments.

  The triple of cell \<open>(3, 3)\<close> of \<^verbatim>\<open>"aba"\<close> and \<^verbatim>\<open>"bab"\<close> has \<open>del = ins\<close> and
  \<open>subst > del\<close>, and the score recorded there is not the minimum.
\<close>

theorem min3_tie_occurs_aba_bab:
  "map_option (\<lambda>(distance, mat).
       (let del = score (mat (2, 3)) + 1; ins = score (mat (3, 2)) + 1;
            subst = score (mat (2, 2)) + 1
        in (del = ins, subst \<le> del, score (mat (3, 3)) = min del (min ins subst))))
     (table_of ''aba'' ''bab'') = Some (True, False, False) \<and> min3 2 2 3 = 3"
  by (simp add: run_defs)

end
